theory Spec2Isabelle
  imports Main "HOL-Library.Char_ord" "HOL-Library.List_Lexorder"
begin

section \<open>Strings\<close>

text \<open>
  Python \<open>str\<close> values are modelled as \<open>string\<close>, a list of \<open>char\<close>; a \<open>char\<close> is a
  code point below 256. The case conversions below are \<open>str.upper\<close>, \<open>str.lower\<close> and
  \<open>str.capitalize\<close> as they act on ASCII text: a letter \<open>a\<close>..\<open>z\<close> or \<open>A\<close>..\<open>Z\<close> changes
  case, every other character is left alone. On text with characters outside ASCII Python
  converts more letters and \<open>upper\<close> may lengthen the text; such text is outside what
  these three functions model, and every property below that rests on them is stated for
  ASCII text (\<open>ascii_text\<close>).
\<close>

definition is_lower :: "char \<Rightarrow> bool" where
  "is_lower c = (CHR ''a'' \<le> c \<and> c \<le> CHR ''z'')"

definition is_upper :: "char \<Rightarrow> bool" where
  "is_upper c = (CHR ''A'' \<le> c \<and> c \<le> CHR ''Z'')"

definition is_digit :: "char \<Rightarrow> bool" where
  "is_digit c = (CHR ''0'' \<le> c \<and> c \<le> CHR ''9'')"

definition upper_char :: "char \<Rightarrow> char" where
  "upper_char c = (if is_lower c then char_of (of_char c - (32::nat)) else c)"

definition lower_char :: "char \<Rightarrow> char" where
  "lower_char c = (if is_upper c then char_of (of_char c + (32::nat)) else c)"

definition upper :: "string \<Rightarrow> string" where
  "upper s = map upper_char s"

definition lower :: "string \<Rightarrow> string" where
  "lower s = map lower_char s"

text \<open>\<open>str.capitalize\<close>: first character upper-cased, the rest lower-cased.\<close>

definition capitalize :: "string \<Rightarrow> string" where
  "capitalize s = (case s of [] \<Rightarrow> [] | c # cs \<Rightarrow> upper_char c # lower cs)"


section \<open>Iteration 1: \<open>BasicPasswordCracker\<close>\<close>

subsection \<open>The archive as the cracker sees it\<close>

text \<open>
  \<open>zipfile\<close> is an external library. An archive is what the code observes of it:
  whether the path exists, what opening it does, and what \<open>extractall\<close> does for a given
  password: its outcome and the entries it has left on disk when it returns or raises.
  The last field is what the code observes of the file system when it walks the directory
  the archive was extracted to: the order in which \<open>rglob\<close> lists the entries present.
\<close>

datatype open_outcome = OpenOk | OpenBadZipFile | OpenOtherError

datatype extract_outcome = Extracted | RuntimeError | BadZipFile | OtherError

record entry =
  e_name :: string
  e_suffix :: string
  e_is_file :: bool
  e_text :: "string option"

record zip_archive =
  z_exists :: bool
  z_open :: open_outcome
  z_extractall :: "string \<Rightarrow> extract_outcome \<times> entry list"
  z_rglob :: "entry list \<Rightarrow> entry list"

datatype error = Uncaught

text \<open>
  The cracker's counters. \<open>tried\<close> is a ghost field: the passwords handed to
  \<open>extractall\<close>, in order.
\<close>

record attack_state =
  attempts :: nat
  tried :: "string list"

definition common_passwords :: "string list" where
  "common_passwords =
    [''password'', ''123456'', ''password123'', ''admin'', ''letmein'',
     ''welcome'', ''monkey'', ''1234567890'', ''qwerty'', ''abc123'',
     ''Password1'', ''welcome123'', ''admin123'', ''root'', ''toor'',
     ''guest'', ''test'', ''demo'', ''user'', ''login'']"

text \<open>
  The \<open>for password in wordlist\<close> loop of \<open>dictionary_attack\<close>: \<open>RuntimeError\<close> and
  \<open>BadZipFile\<close> are caught and the loop continues; any other exception leaves the function.
\<close>

fun attack_loop ::
  "zip_archive \<Rightarrow> string list \<Rightarrow> attack_state \<Rightarrow> error + (string option \<times> attack_state)" where
  "attack_loop z [] s = Inr (None, s)"
| "attack_loop z (p # ps) s =
     (let s' = s\<lparr>attempts := attempts s + 1, tried := tried s @ [p]\<rparr> in
      case fst (z_extractall z p) of
        Extracted \<Rightarrow> Inr (Some p, s')
      | RuntimeError \<Rightarrow> attack_loop z ps s'
      | BadZipFile \<Rightarrow> attack_loop z ps s'
      | OtherError \<Rightarrow> Inl Uncaught)"

text \<open>\<open>wordlist or self.common_passwords\<close>: \<open>None\<close> and the empty list are both falsy.\<close>

definition effective_wordlist :: "string list option \<Rightarrow> string list" where
  "effective_wordlist wordlist =
     (case wordlist of None \<Rightarrow> common_passwords
      | Some w \<Rightarrow> if w = [] then common_passwords else w)"

definition dictionary_attack ::
  "zip_archive \<Rightarrow> string list option \<Rightarrow> attack_state \<Rightarrow> error + (string option \<times> attack_state)" where
  "dictionary_attack z wordlist s =
     (if \<not> z_exists z then Inr (None, s)
      else
        let wl = effective_wordlist wordlist;
            s0 = s\<lparr>attempts := 0, tried := []\<rparr> in
        case z_open z of
          OpenOk \<Rightarrow> attack_loop z wl s0
        | OpenBadZipFile \<Rightarrow> Inr (None, s0)
        | OpenOtherError \<Rightarrow> Inl Uncaught)"

subsection \<open>Pattern-based attack\<close>



subsection \<open>Numeric brute force\<close>

definition digits :: string where
  "digits = ''0123456789''"

text \<open>
  \<open>itertools.product(xs, repeat=n)\<close>: all \<open>n\<close>-tuples over \<open>xs\<close>, the rightmost position
  advancing fastest.
\<close>

fun product_repeat :: "'a list \<Rightarrow> nat \<Rightarrow> 'a list list" where
  "product_repeat xs 0 = [[]]"
| "product_repeat xs (Suc n) = concat (map (\<lambda>x. map ((#) x) (product_repeat xs n)) xs)"

text \<open>
  The inner loop \<open>for combo in itertools.product(string.digits, repeat=length)\<close>. A
  success returns from the whole function, which the result \<open>Some p\<close> records.
\<close>

fun combo_loop ::
  "zip_archive \<Rightarrow> string list \<Rightarrow> attack_state \<Rightarrow> error + (string option \<times> attack_state)" where
  "combo_loop z [] s = Inr (None, s)"
| "combo_loop z (p # ps) s =
     (let s' = s\<lparr>attempts := attempts s + 1, tried := tried s @ [p]\<rparr> in
      case fst (z_extractall z p) of
        Extracted \<Rightarrow> Inr (Some p, s')
      | RuntimeError \<Rightarrow> combo_loop z ps s'
      | BadZipFile \<Rightarrow> combo_loop z ps s'
      | OtherError \<Rightarrow> Inl Uncaught)"

text \<open>The outer loop \<open>for length in range(1, max_length + 1)\<close>.\<close>

fun length_loop ::
  "zip_archive \<Rightarrow> nat list \<Rightarrow> attack_state \<Rightarrow> error + (string option \<times> attack_state)" where
  "length_loop z [] s = Inr (None, s)"
| "length_loop z (n # ns) s =
     (case combo_loop z (product_repeat digits n) s of
        Inl e \<Rightarrow> Inl e
      | Inr (Some p, s') \<Rightarrow> Inr (Some p, s')
      | Inr (None, s') \<Rightarrow> length_loop z ns s')"

text \<open>\<open>range(1, max_length + 1)\<close> for a Python integer \<open>max_length\<close>.\<close>

definition length_range :: "int \<Rightarrow> nat list" where
  "length_range max_length = map nat [1..max_length]"

definition brute_force_numeric ::
  "zip_archive \<Rightarrow> int \<Rightarrow> attack_state \<Rightarrow> error + (string option \<times> attack_state)" where
  "brute_force_numeric z max_length s =
     (if \<not> z_exists z then Inr (None, s)
      else
        let s0 = s\<lparr>attempts := 0, tried := []\<rparr> in
        case z_open z of
          OpenOk \<Rightarrow> length_loop z (length_range max_length) s0
        | OpenBadZipFile \<Rightarrow> Inr (None, s0)
        | OpenOtherError \<Rightarrow> Inl Uncaught)"

text \<open>
  The trial sequence of the generator is what \<open>brute_force_numeric\<close> tries against an
  archive that rejects every password.
\<close>

definition locked :: zip_archive where
  "locked = \<lparr>z_exists = True, z_open = OpenOk, z_extractall = (\<lambda>p. (RuntimeError, [])),
      z_rglob = (\<lambda>es. es)\<rparr>"

definition numeric_trials :: "int \<Rightarrow> string list" where
  "numeric_trials max_length =
     (case brute_force_numeric locked max_length \<lparr>attempts = 0, tried = []\<rparr> of
        Inr (r, s) \<Rightarrow> tried s
      | Inl e \<Rightarrow> [])"

section \<open>Iteration 2: \<open>MultiLayerZipCracker\<close>\<close>

subsection \<open>Console output of the hint scanners\<close>

text \<open>
  \<open>decode_base64_hints\<close> and \<open>extract_coordinates\<close> return nothing; what they emit is
  what they print. One constructor per \<open>print\<close> call of the two functions.
\<close>

datatype out_line =
  DecodingHeader
| FoundEncoded string
| Decoded string
| CoordHeader
| CoordinatesFound string string
| ParisHint

subsection \<open>\<open>decode_base64_hints\<close>\<close>

definition is_b64 :: "char \<Rightarrow> bool" where
  "is_b64 c = (is_upper c \<or> is_lower c \<or> is_digit c \<or> c = CHR ''+'' \<or> c = CHR ''/'')"

definition is_eq :: "char \<Rightarrow> bool" where
  "is_eq c = (c = CHR ''='')"

text \<open>
  The pattern \<open>[A-Za-z0-9+/]{20,}={0,2}\<close> tried at the start of \<open>text\<close>. Both
  quantifiers are greedy, and the second one accepts zero characters, so the first try
  (the longest run, then up to two \<open>=\<close>) is the match whenever there is one.
\<close>

definition match_base64 :: "string \<Rightarrow> string option" where
  "match_base64 text =
     (let run = takeWhile is_b64 text in
      if 20 \<le> length run
      then Some (run @ take 2 (takeWhile is_eq (dropWhile is_b64 text)))
      else None)"

text \<open>
  \<open>re.findall\<close>: try the pattern at the current position; on a match report it and
  go on behind it, otherwise move one character to the right.
\<close>

function findall_base64 :: "string \<Rightarrow> string list" where
  "findall_base64 text =
     (case match_base64 text of
        Some m \<Rightarrow> m # findall_base64 (drop (length m) text)
      | None \<Rightarrow> (case text of [] \<Rightarrow> [] | c # cs \<Rightarrow> findall_base64 cs))"
  by pat_completeness auto
termination
proof (relation "measure length")
  show "wf (measure length)" by simp
next
  fix inp m
  assume "match_base64 inp = Some m"
  then have "20 \<le> length m" and "inp \<noteq> []"
    by (auto simp: match_base64_def Let_def split: if_splits)
  then show "(drop (length m) inp, inp) \<in> measure length"
    by (cases inp) simp_all
next
  fix inp :: string and c cs
  assume "inp = c # cs"
  then show "(cs, inp) \<in> measure length" by simp
qed

declare findall_base64.simps [simp del]

text \<open>
  The loop over the matches. \<open>dec\<close> stands for the library call
  \<open>base64.b64decode(match).decode('utf-8')\<close>: \<open>None\<close> when either step raises. The
  bare \<open>except: continue\<close> turns every such failure into skipping the token. Both
  lines of a token are printed after its decoding has succeeded; the console is taken to
  accept the text printed.
\<close>

fun decode_loop :: "(string \<Rightarrow> string option) \<Rightarrow> string list \<Rightarrow> out_line list" where
  "decode_loop dec [] = []"
| "decode_loop dec (m # ms) =
     (case dec m of
        Some decoded \<Rightarrow> FoundEncoded m # Decoded decoded # decode_loop dec ms
      | None \<Rightarrow> decode_loop dec ms)"

definition decode_base64_hints :: "(string \<Rightarrow> string option) \<Rightarrow> string \<Rightarrow> out_line list" where
  "decode_base64_hints dec text = DecodingHeader # decode_loop dec (findall_base64 text)"

subsection \<open>\<open>extract_coordinates\<close>\<close>

text \<open>
  \<open>\s\<close> on the characters of the model, the code points below 256 that \<open>str\<close> counts as
  whitespace: tab to carriage return, the four separators \<open>0x1c\<close> to \<open>0x1f\<close>, the blank,
  the next-line control \<open>0x85\<close> and the no-break space \<open>0xa0\<close>.
\<close>

definition is_space :: "char \<Rightarrow> bool" where
  "is_space c =
     (let n = (of_char c :: nat) in
      (9 \<le> n \<and> n \<le> 13) \<or> (28 \<le> n \<and> n \<le> 32) \<or> n = 133 \<or> n = 160)"

text \<open>
  One number of the pattern, \<open>-?\d{1,3}\.\d{4}\<close>, at the start of \<open>text\<close>: the text
  matched and the text left. Only a digit run of length one to three that is directly
  followed by the point can match, so there is nothing to backtrack into.
\<close>

definition match_number :: "string \<Rightarrow> (string \<times> string) option" where
  "match_number text =
     (let sign = (if text \<noteq> [] \<and> hd text = CHR ''-'' then [CHR ''-''] else []);
          t1 = drop (length sign) text;
          ds = takeWhile is_digit t1;
          t2 = dropWhile is_digit t1
      in if 1 \<le> length ds \<and> length ds \<le> 3 \<and> t2 \<noteq> [] \<and> hd t2 = CHR ''.''
            \<and> 4 \<le> length (tl t2) \<and> list_all is_digit (take 4 (tl t2))
         then Some (sign @ ds @ [CHR ''.''] @ take 4 (tl t2), drop 4 (tl t2))
         else None)"

text \<open>
  The whole pattern \<open>(-?\d{1,3}\.\d{4}),?\s*(-?\d{1,3}\.\d{4})\<close>: the two groups and
  the text left. The optional comma and the blanks are taken greedily; giving one back
  would start the second number on a comma or a blank, which cannot match.
\<close>

definition match_pair :: "string \<Rightarrow> ((string \<times> string) \<times> string) option" where
  "match_pair text =
     (case match_number text of
        None \<Rightarrow> None
      | Some (lat, r1) \<Rightarrow>
          (let r2 = (if r1 \<noteq> [] \<and> hd r1 = CHR '','' then tl r1 else r1);
               r3 = dropWhile is_space r2
           in case match_number r3 of
                None \<Rightarrow> None
              | Some (lon, r4) \<Rightarrow> Some ((lat, lon), r4)))"

function findall_coords :: "string \<Rightarrow> (string \<times> string) list" where
  "findall_coords text =
     (case match_pair text of
        Some (p, rest) \<Rightarrow> p # findall_coords rest
      | None \<Rightarrow> (case text of [] \<Rightarrow> [] | c # cs \<Rightarrow> findall_coords cs))"
  by pat_completeness auto
termination
proof (relation "measure length")
  show "wf (measure length)" by simp
next
  fix inp x p rest
  assume "match_pair inp = Some x" and "(p, rest) = x"
  then have mp: "match_pair inp = Some (p, rest)" by simp
  have num: "length r < length t" if "match_number t = Some (m, r)" for t m r
  proof -
    let ?s = "if t \<noteq> [] \<and> hd t = CHR ''-'' then [CHR ''-''] else []"
    let ?t2 = "dropWhile is_digit (drop (length ?s) t)"
    from that have r: "r = drop 4 (tl ?t2)" and ne: "?t2 \<noteq> []"
      by (auto simp: match_number_def Let_def split: if_splits)
    have "length r \<le> length (tl ?t2)" using r by simp
    also have "\<dots> < length ?t2" using ne by (cases ?t2) simp_all
    also have "\<dots> \<le> length (drop (length ?s) t)" by (rule length_dropWhile_le)
    also have "\<dots> \<le> length t" by simp
    finally show ?thesis .
  qed
  from mp obtain lat r1 lon where
    a: "match_number inp = Some (lat, r1)" and
    b: "match_number (dropWhile is_space (if r1 \<noteq> [] \<and> hd r1 = CHR '','' then tl r1 else r1))
          = Some (lon, rest)"
    by (auto simp: match_pair_def Let_def split: option.splits prod.splits)
  have "length rest
          < length (dropWhile is_space (if r1 \<noteq> [] \<and> hd r1 = CHR '','' then tl r1 else r1))"
    using num [OF b] .
  also have "\<dots> \<le> length (if r1 \<noteq> [] \<and> hd r1 = CHR '','' then tl r1 else r1)"
    by (rule length_dropWhile_le)
  also have "\<dots> \<le> length r1" by simp
  also have "\<dots> < length inp" using num [OF a] .
  finally show "(rest, inp) \<in> measure length" by simp
next
  fix inp :: string and c cs
  assume "inp = c # cs"
  then show "(cs, inp) \<in> measure length" by simp
qed

declare findall_coords.simps [simp del]

text \<open>
  \<open>float(s)\<close> for a matched number, as the exact count of ten-thousandths. The bounds of
  the location test are whole numbers, which \<open>float\<close> represents exactly, so comparing
  the exact values decides the test as the floating-point comparison does.
\<close>

definition digit_val :: "char \<Rightarrow> int" where
  "digit_val c = int (of_char c) - 48"

definition digits_val :: "string \<Rightarrow> int" where
  "digits_val s = foldl (\<lambda>acc c. 10 * acc + digit_val c) 0 s"

definition coord_value :: "string \<Rightarrow> int" where
  "coord_value s =
     (let neg = (s \<noteq> [] \<and> hd s = CHR ''-'');
          body = (if neg then tl s else s);
          v = digits_val (filter is_digit body)
      in if neg then - v else v)"

fun coord_loop :: "(string \<times> string) list \<Rightarrow> out_line list" where
  "coord_loop [] = []"
| "coord_loop ((lat, lon) # ms) =
     (let lat_f = coord_value lat; lon_f = coord_value lon in
      CoordinatesFound lat lon #
      (if 480000 < lat_f \<and> lat_f < 490000 \<and> 20000 < lon_f \<and> lon_f < 30000
       then ParisHint # coord_loop ms
       else coord_loop ms))"

definition extract_coordinates :: "string \<Rightarrow> out_line list" where
  "extract_coordinates text = CoordHeader # coord_loop (findall_coords text)"

subsection \<open>\<open>process_extracted_content\<close>\<close>

text \<open>\<open>s.find(sub)\<close>: the lowest index at which \<open>sub\<close> starts, \<open>None\<close> for Python's \<open>-1\<close>.\<close>

fun find_str :: "string \<Rightarrow> string \<Rightarrow> nat option" where
  "find_str sub [] = (if sub = [] then Some 0 else None)"
| "find_str sub (c # cs) =
     (if take (length sub) (c # cs) = sub then Some 0
      else map_option Suc (find_str sub cs))"

text \<open>\<open>sub in s\<close>.\<close>

fun str_contains :: "string \<Rightarrow> string \<Rightarrow> bool" where
  "str_contains sub [] = (sub = [])"
| "str_contains sub (c # cs) = (take (length sub) (c # cs) = sub \<or> str_contains sub cs)"

text \<open>
  The body of \<open>if "HINT" in content.upper()\<close>: the hints appended for one text file.
  \<open>content[a:a+500]\<close> is \<open>take 500 (drop a content)\<close>. A \<open>find\<close> of \<open>-1\<close> would
  make the slice \<open>content[-1:499]\<close>; the guard excludes it, and the model returns no hint
  there. The index is one into \<open>content.upper()\<close>; it is a position of \<open>content\<close> as
  well as long as upper-casing keeps every character in place, which it does on ASCII
  text.
\<close>

definition hint_sections :: "string \<Rightarrow> string list" where
  "hint_sections content =
     (if str_contains ''HINT'' (upper content)
      then (case find_str ''HINT'' (upper content) of
              Some hint_start \<Rightarrow> [take 500 (drop hint_start content)]
            | None \<Rightarrow> [])
      else [])"

text \<open>
  The loop \<open>for file_path in extract_dir.rglob("*")\<close> over the entries of the directory,
  in the order the file system lists them. It returns the first nested archive it meets,
  which ends the loop, and the hint list as extended so far. A file whose \<open>read_text\<close>
  raises is skipped by the inner \<open>except\<close>. The two scanners called on the content only
  print and never raise, so they leave the state as it is.
\<close>

fun process_loop :: "entry list \<Rightarrow> string list \<Rightarrow> string option \<times> string list" where
  "process_loop [] hints = (None, hints)"
| "process_loop (e # es) hints =
     (if e_is_file e then
        (if e_suffix e = ''.txt'' then
           (case e_text e of
              None \<Rightarrow> process_loop es hints
            | Some content \<Rightarrow> process_loop es (hints @ hint_sections content))
         else if e_suffix e = ''.zip'' then (Some (e_name e), hints)
         else process_loop es hints)
      else process_loop es hints)"

subsection \<open>The cracker and the extraction directories\<close>

record cracker =
  layer_count :: nat
  extracted_hints :: "string list"
  password_history :: "(int \<times> string) list"

text \<open>
  The directory \<open>temp_extract_{n}\<close> is addressed by \<open>n\<close>; \<open>None\<close> is a directory that
  does not exist.
\<close>

type_synonym filesystem = "nat \<rightharpoonup> entry list"

definition dir_entries :: "filesystem \<Rightarrow> nat \<Rightarrow> entry list" where
  "dir_entries fs d = (case fs d of None \<Rightarrow> [] | Some es \<Rightarrow> es)"

text \<open>\<open>extract_dir.mkdir(exist_ok=True)\<close>.\<close>

definition mkdir :: "filesystem \<Rightarrow> nat \<Rightarrow> filesystem" where
  "mkdir fs d = (case fs d of None \<Rightarrow> fs(d \<mapsto> []) | Some es \<Rightarrow> fs)"

text \<open>Writing an entry replaces the entry of the same name, or adds it.\<close>

fun write_entry :: "entry \<Rightarrow> entry list \<Rightarrow> entry list" where
  "write_entry e [] = [e]"
| "write_entry e (x # xs) = (if e_name x = e_name e then e # xs else x # write_entry e xs)"

definition write_entries :: "entry list \<Rightarrow> entry list \<Rightarrow> entry list" where
  "write_entries dir written = foldl (\<lambda>d e. write_entry e d) dir written"

subsection \<open>\<open>try_passwords\<close>\<close>

text \<open>
  What \<open>try_passwords\<close> returns is the pair of the password and the directory. The
  fields \<open>attempt\<close> (the loop index \<open>i\<close> when the call ended, 0 before the first
  candidate) and \<open>tried_candidates\<close> (the passwords handed to \<open>extractall\<close>, in order)
  are ghost fields.
\<close>

record try_result =
  found_password :: "string option"
  found_dir :: "nat option"
  attempt :: nat
  tried_candidates :: "string list"

text \<open>
  The loop \<open>for i, password in enumerate(candidates, 1)\<close>. Each round creates the
  directory, extracts into it, and on success scans the directory, as \<open>rglob\<close> lists it,
  for hints.
  \<open>RuntimeError\<close> and \<open>BadZipFile\<close> go on to the next candidate; any other exception reaches
  the outer \<open>except Exception\<close>, which returns \<open>(None, None)\<close>.
\<close>

fun try_loop ::
  "zip_archive \<Rightarrow> string list \<Rightarrow> nat \<Rightarrow> string list \<Rightarrow> cracker \<Rightarrow> filesystem
     \<Rightarrow> try_result \<times> cracker \<times> filesystem" where
  "try_loop z [] n tr c fs =
     (\<lparr>found_password = None, found_dir = None, attempt = n, tried_candidates = tr\<rparr>, c, fs)"
| "try_loop z (p # ps) n tr c fs =
     (let d = layer_count c;
          fs1 = mkdir fs d;
          fs2 = fs1(d \<mapsto> write_entries (dir_entries fs1 d) (snd (z_extractall z p)))
      in case fst (z_extractall z p) of
           Extracted \<Rightarrow>
             (\<lparr>found_password = Some p, found_dir = Some d, attempt = n + 1,
               tried_candidates = tr @ [p]\<rparr>,
              c\<lparr>extracted_hints :=
                  snd (process_loop (z_rglob z (dir_entries fs2 d)) (extracted_hints c))\<rparr>,
              fs2)
         | RuntimeError \<Rightarrow> try_loop z ps (n + 1) (tr @ [p]) c fs2
         | BadZipFile \<Rightarrow> try_loop z ps (n + 1) (tr @ [p]) c fs2
         | OtherError \<Rightarrow>
             (\<lparr>found_password = None, found_dir = None, attempt = n + 1,
               tried_candidates = tr @ [p]\<rparr>, c, fs2))"

definition try_passwords ::
  "zip_archive \<Rightarrow> string list \<Rightarrow> cracker \<Rightarrow> filesystem \<Rightarrow> try_result \<times> cracker \<times> filesystem" where
  "try_passwords z candidates c fs =
     (case z_open z of
        OpenOk \<Rightarrow> try_loop z candidates 0 [] c fs
      | OpenBadZipFile \<Rightarrow>
          (\<lparr>found_password = None, found_dir = None, attempt = 0, tried_candidates = []\<rparr>, c, fs)
      | OpenOtherError \<Rightarrow>
          (\<lparr>found_password = None, found_dir = None, attempt = 0, tried_candidates = []\<rparr>, c, fs))"

subsection \<open>Candidate generators and \<open>intelligent_crack_layer\<close>\<close>

definition generate_simple_passwords :: "string list" where
  "generate_simple_passwords =
     [''start'', ''start123'', ''begin'', ''begin123'', ''layer1'',
      ''password'', ''123456'', ''welcome'', ''hello'', ''first''] @
     concat (map (\<lambda>base. map (\<lambda>num. base @ num) [''1'', ''12'', ''123'', ''2024'', ''2023''])
                 [''start'', ''begin'', ''first''])"

definition scientists :: "(string \<times> string) list" where
  "scientists =
     [(''albert'', ''1921''), (''einstein'', ''1921''), (''albert1921'', ''''),
      (''newton'', ''1687''), (''darwin'', ''1859''), (''curie'', ''1903''),
      (''tesla'', ''1856''), (''galileo'', ''1564'')]"

text \<open>\<open>year[-2:]\<close>: the last two characters, or all of a shorter string.\<close>

definition last_two :: "string \<Rightarrow> string" where
  "last_two year = drop (length year - 2) year"

definition generate_knowledge_passwords :: "string list" where
  "generate_knowledge_passwords =
     concat (map (\<lambda>(name, year). [name @ year, capitalize name @ year, name @ last_two year])
                 scientists)"

definition generate_complex_passwords :: "string list" where
  "generate_complex_passwords =
     concat (map (\<lambda>city.
       concat (map (\<lambda>element.
         concat (map (\<lambda>num.
           map (\<lambda>symbol. city @ element @ num @ symbol)
               [''!'', ''@'', ''#'', ''$'', ''%''])
           [''49'', ''64'', ''36'', ''25'', ''16'']))
         [''au'', ''ag'', ''fe'', ''cu'', ''pb'', ''sn'']))
       [''paris'', ''london'', ''berlin'', ''madrid'', ''rome''])"

text \<open>
  The value of the local \<open>candidates\<close> in
  \<open>intelligent_crack_layer(zip_path, layer_num, hint_text)\<close>.
\<close>

definition layer_candidates :: "int \<Rightarrow> string \<Rightarrow> string list" where
  "layer_candidates layer_num hint_text =
     (if layer_num = 1 then generate_simple_passwords
      else if layer_num = 2 then generate_knowledge_passwords
      else generate_complex_passwords)"

text \<open>What the \<open>if hint_text:\<close> block prints through the two scanners.\<close>

definition hint_output :: "(string \<Rightarrow> string option) \<Rightarrow> string \<Rightarrow> out_line list" where
  "hint_output dec hint_text =
     (if hint_text \<noteq> [] then decode_base64_hints dec hint_text @ extract_coordinates hint_text
      else [])"

definition intelligent_crack_layer ::
  "(string \<Rightarrow> string option) \<Rightarrow> zip_archive \<Rightarrow> int \<Rightarrow> string \<Rightarrow> cracker \<Rightarrow> filesystem
     \<Rightarrow> out_line list \<times> try_result \<times> cracker \<times> filesystem" where
  "intelligent_crack_layer dec z layer_num hint_text c fs =
     (hint_output dec hint_text, try_passwords z (layer_candidates layer_num hint_text) c fs)"

text \<open>
  \<open>hint = self.extracted_hints[-1] if self.extracted_hints else ""\<close> in
  \<open>crack_multi_layer_zip\<close>.
\<close>

definition current_hint :: "cracker \<Rightarrow> string" where
  "current_hint c = (if extracted_hints c \<noteq> [] then last (extracted_hints c) else [])"

section \<open>Notions used to state the properties\<close>

text \<open>An archive that opens and extracts for exactly one password, writing nothing otherwise.\<close>

definition archive_with_password :: "string \<Rightarrow> zip_archive" where
  "archive_with_password pw =
     \<lparr>z_exists = True, z_open = OpenOk,
      z_extractall = (\<lambda>p. if p = pw then (Extracted, []) else (RuntimeError, [])),
      z_rglob = (\<lambda>es. es)\<rparr>"

text \<open>A cracker that has done nothing yet, an empty disk, and fresh counters.\<close>

definition fresh_cracker :: cracker where
  "fresh_cracker = \<lparr>layer_count = 0, extracted_hints = [], password_history = []\<rparr>"

definition empty_fs :: filesystem where
  "empty_fs = Map.empty"

definition fresh_state :: attack_state where
  "fresh_state = \<lparr>attempts = 0, tried = []\<rparr>"

text \<open>
  A candidate is rejected as a wrong password when its extraction raises one of the two
  exceptions the loops catch.
\<close>

definition wrong_password :: "zip_archive \<Rightarrow> string \<Rightarrow> bool" where
  "wrong_password z p =
     (fst (z_extractall z p) = RuntimeError \<or> fst (z_extractall z p) = BadZipFile)"

text \<open>
  A deflated, encrypted archive as \<open>zipfile\<close> can present it. The password is \<open>good\<close>.
  The wrong password \<open>98\<close> passes the one-byte password check and the decompressor
  then raises \<open>zlib.error\<close>, which is neither of the two exceptions the loops catch.
  The wrong password \<open>17\<close> passes the check too and fails the CRC with \<open>BadZipFile\<close>.
  Every other password fails the check with \<open>RuntimeError\<close>.
\<close>

definition deflated_archive :: zip_archive where
  "deflated_archive =
     \<lparr>z_exists = True, z_open = OpenOk,
      z_extractall = (\<lambda>p. if p = ''good'' then (Extracted, [])
                           else if p = ''98'' then (OtherError, [])
                           else if p = ''17'' then (BadZipFile, [])
                           else (RuntimeError, [])),
      z_rglob = (\<lambda>es. es)\<rparr>"

text \<open>An archive that opens, and whose every extraction fails its integrity check.\<close>

definition corrupt_archive :: zip_archive where
  "corrupt_archive =
     \<lparr>z_exists = True, z_open = OpenOk, z_extractall = (\<lambda>p. (BadZipFile, [])),
      z_rglob = (\<lambda>es. es)\<rparr>"

text \<open>A file that exists and is not an archive: opening it raises \<open>BadZipFile\<close>.\<close>

definition not_an_archive :: zip_archive where
  "not_an_archive =
     \<lparr>z_exists = True, z_open = OpenBadZipFile, z_extractall = (\<lambda>p. (BadZipFile, [])),
      z_rglob = (\<lambda>es. es)\<rparr>"

text \<open>
  An archive with an unencrypted member in front of an encrypted one: \<open>extractall\<close> writes
  the first member before the wrong password makes the second one raise.
\<close>

definition readme :: entry where
  "readme = \<lparr>e_name = ''readme.txt'', e_suffix = ''.txt'', e_is_file = True,
             e_text = Some ''public notes''\<rparr>"

definition secret :: entry where
  "secret = \<lparr>e_name = ''secret.txt'', e_suffix = ''.txt'', e_is_file = True,
             e_text = Some ''the secret''\<rparr>"

definition leaky_archive :: zip_archive where
  "leaky_archive =
     \<lparr>z_exists = True, z_open = OpenOk,
      z_extractall = (\<lambda>p. if p = ''good'' then (Extracted, [readme, secret])
                           else (RuntimeError, [readme])),
      z_rglob = rev\<rparr>"

text \<open>The names present in an extraction directory, and the names one extraction writes.\<close>

definition names_in :: "filesystem \<Rightarrow> nat \<Rightarrow> string set" where
  "names_in fs d = set (map e_name (dir_entries fs d))"

definition written_names :: "zip_archive \<Rightarrow> string \<Rightarrow> string set" where
  "written_names z p = set (map e_name (snd (z_extractall z p)))"

text \<open>The effect of one round of the loop of \<open>try_passwords\<close> on the disk.\<close>

definition attempt_fs :: "zip_archive \<Rightarrow> nat \<Rightarrow> filesystem \<Rightarrow> string \<Rightarrow> filesystem" where
  "attempt_fs z d fs p =
     (mkdir fs d)(d \<mapsto> write_entries (dir_entries (mkdir fs d) d) (snd (z_extractall z p)))"

text \<open>Shorter strings first, strings of one length in lexicographic order.\<close>

definition shortlex :: "string \<Rightarrow> string \<Rightarrow> bool" where
  "shortlex a b = (length a < length b \<or> (length a = length b \<and> a < b))"






text \<open>
  A token of the encoded-segment pattern: at least twenty characters of the base64
  alphabet, followed by at most two \<open>=\<close> and nothing else.
\<close>

definition b64_token :: "string \<Rightarrow> bool" where
  "b64_token m =
     (20 \<le> length (takeWhile is_b64 m) \<and>
      length (dropWhile is_b64 m) \<le> 2 \<and>
      list_all is_eq (dropWhile is_b64 m))"

text \<open>What the scan prints for one token: two lines when it decodes, nothing when it does not.\<close>

definition decoded_lines :: "(string \<Rightarrow> string option) \<Rightarrow> string \<Rightarrow> out_line list" where
  "decoded_lines dec m =
     (case dec m of Some decoded \<Rightarrow> [FoundEncoded m, Decoded decoded] | None \<Rightarrow> [])"

text \<open>
  The decoder of the example: the token of the layer-2 text decodes to the sentence the
  layer-3 text quotes for it; every other token of the example fails to decode.
\<close>

definition layer2_dec :: "string \<Rightarrow> string option" where
  "layer2_dec m =
     (if m = ''VGhlIGZpbmFsIGxheWVyIGF3YWl0cyE='' then Some ''The final layer awaits!'' else None)"





section \<open>The attempt loops\<close>

lemma try_loop_first_success:
  "list_all (wrong_password z) pre \<Longrightarrow> fst (z_extractall z p) = Extracted \<Longrightarrow>
   fst (try_loop z (pre @ p # post) n tr c fs) =
     \<lparr>found_password = Some p, found_dir = Some (layer_count c),
      attempt = n + length pre + 1, tried_candidates = tr @ pre @ [p]\<rparr>"
proof (induction pre arbitrary: n tr fs)
  case Nil
  then show ?case by (simp add: Let_def)
next
  case (Cons q pre)
  from Cons.prems have q: "wrong_password z q" and rest: "list_all (wrong_password z) pre"
    by simp_all
  from q show ?case
    unfolding wrong_password_def
    by (auto simp: Let_def Cons.IH [OF rest Cons.prems(2)])
qed

lemma attack_loop_first_success:
  "list_all (wrong_password z) pre \<Longrightarrow> fst (z_extractall z p) = Extracted \<Longrightarrow>
   attack_loop z (pre @ p # post) s =
     Inr (Some p, s\<lparr>attempts := attempts s + length pre + 1, tried := tried s @ pre @ [p]\<rparr>)"
proof (induction pre arbitrary: s)
  case Nil
  then show ?case by (simp add: Let_def)
next
  case (Cons q pre)
  from Cons.prems have q: "wrong_password z q" and rest: "list_all (wrong_password z) pre"
    by simp_all
  from q show ?case
    unfolding wrong_password_def
    by (auto simp: Let_def Cons.IH [OF rest Cons.prems(2)])
qed

text \<open>
  C1 (as the claim states it, refuted). Against the deflated archive the candidates
  \<open>98\<close>, \<open>good\<close> do not lead to the password: the extraction with \<open>98\<close> raises an
  exception that is neither \<open>RuntimeError\<close> nor \<open>BadZipFile\<close>. \<open>try_passwords\<close> returns
  the failure result after that one attempt, and \<open>dictionary_attack\<close> lets the exception
  escape; \<open>good\<close> is never tried.
\<close>

theorem uncaught_exception_counterexample:
  "fst (try_passwords deflated_archive [''98'', ''good''] fresh_cracker empty_fs) =
     \<lparr>found_password = None, found_dir = None, attempt = 1, tried_candidates = [''98'']\<rparr>
   \<and> dictionary_attack deflated_archive (Some [''98'', ''good'']) fresh_state = Inl Uncaught"
  by (simp add: try_passwords_def dictionary_attack_def effective_wordlist_def
      deflated_archive_def fresh_state_def Let_def)

text \<open>
  C1 (amended). When every candidate before \<open>p\<close> is rejected with \<open>RuntimeError\<close> or
  \<open>BadZipFile\<close>, the two exceptions the attempt loops treat as a wrong password, and \<open>p\<close>
  extracts, both attempt loops (\<open>try_passwords\<close> and \<open>dictionary_attack\<close>) return \<open>p\<close> as
  the password found, with an attempt count equal to the 1-based position of \<open>p\<close>; the
  candidates tried are exactly those up to and including \<open>p\<close>, in the supplied order,
  and none behind it.
\<close>

theorem first_success_wins:
  assumes "z_exists z" and "z_open z = OpenOk"
    and "list_all (wrong_password z) pre"
    and "fst (z_extractall z p) = Extracted"
  shows "fst (try_passwords z (pre @ p # post) c fs) =
           \<lparr>found_password = Some p, found_dir = Some (layer_count c),
            attempt = length pre + 1, tried_candidates = pre @ [p]\<rparr>
       \<and> dictionary_attack z (Some (pre @ p # post)) s =
           Inr (Some p, \<lparr>attempts = length pre + 1, tried = pre @ [p]\<rparr>)"
  using assms
  by (simp add: try_passwords_def dictionary_attack_def effective_wordlist_def
      try_loop_first_success attack_loop_first_success)

theorem first_success_wins_witness:
  "fst (try_passwords (archive_with_password ''correct'')
          [''wrong1'', ''wrong2'', ''correct'', ''wrong3''] fresh_cracker empty_fs) =
     \<lparr>found_password = Some ''correct'', found_dir = Some 0,
      attempt = 3, tried_candidates = [''wrong1'', ''wrong2'', ''correct'']\<rparr>
   \<and> dictionary_attack (archive_with_password ''correct'')
          (Some [''wrong1'', ''wrong2'', ''correct'', ''wrong3'']) fresh_state =
     Inr (Some ''correct'', \<lparr>attempts = 3, tried = [''wrong1'', ''wrong2'', ''correct'']\<rparr>)
   \<and> fst (try_passwords deflated_archive [''wrong'', ''17'', ''good'', ''98'']
          fresh_cracker empty_fs) =
     \<lparr>found_password = Some ''good'', found_dir = Some 0,
      attempt = 3, tried_candidates = [''wrong'', ''17'', ''good'']\<rparr>
   \<and> dictionary_attack deflated_archive (Some [''wrong'', ''17'', ''good'', ''98''])
          fresh_state =
     Inr (Some ''good'', \<lparr>attempts = 3, tried = [''wrong'', ''17'', ''good'']\<rparr>)"
  using first_success_wins [of "archive_with_password ''correct''" "[''wrong1'', ''wrong2'']"
      "''correct''" "[''wrong3'']" fresh_cracker empty_fs fresh_state]
    first_success_wins [of deflated_archive "[''wrong'', ''17'']"
      "''good''" "[''98'']" fresh_cracker empty_fs fresh_state]
  by (simp add: archive_with_password_def deflated_archive_def wrong_password_def
      fresh_cracker_def)

lemma try_loop_all_wrong:
  "list_all (wrong_password z) ps \<Longrightarrow>
   fst (try_loop z ps n tr c fs) =
     \<lparr>found_password = None, found_dir = None, attempt = n + length ps,
      tried_candidates = tr @ ps\<rparr>"
proof (induction ps arbitrary: n tr fs)
  case Nil
  then show ?case by simp
next
  case (Cons q ps)
  from Cons.prems have q: "wrong_password z q" and rest: "list_all (wrong_password z) ps"
    by simp_all
  from q show ?case
    unfolding wrong_password_def
    by (auto simp: Let_def Cons.IH [OF rest])
qed

text \<open>
  C4 (as the claim states it, refuted). \<open>dictionary_attack\<close> called with an empty word
  list against an archive whose password is \<open>password\<close> finds that password at the first
  attempt: the empty list is replaced by the built-in list of common passwords.
\<close>

theorem empty_wordlist_counterexample:
  "dictionary_attack (archive_with_password ''password'') (Some []) fresh_state =
     Inr (Some ''password'', \<lparr>attempts = 1, tried = [''password'']\<rparr>)"
  by (simp add: dictionary_attack_def effective_wordlist_def common_passwords_def
      archive_with_password_def fresh_state_def)

text \<open>
  C4 (amended). \<open>try_passwords\<close> called with an empty candidate sequence returns the
  failure result after zero attempts, for every archive, with the cracker and the disk
  unchanged; it has no raising exit. \<open>dictionary_attack\<close> called with an empty word list
  behaves as when called with the built-in list of common passwords.
\<close>

theorem empty_candidates:
  "try_passwords z [] c fs =
     (\<lparr>found_password = None, found_dir = None, attempt = 0, tried_candidates = []\<rparr>, c, fs)
   \<and> dictionary_attack z (Some []) s = dictionary_attack z (Some common_passwords) s"
  by (simp add: try_passwords_def dictionary_attack_def effective_wordlist_def common_passwords_def
      split: open_outcome.split)

text \<open>
  C5 (as the claim states it, refuted). Against an archive that opens but whose every
  extraction raises \<open>BadZipFile\<close>, both loops try every candidate.
\<close>

theorem corrupt_archive_counterexample:
  "tried_candidates (fst (try_passwords corrupt_archive [''a'', ''b'', ''c''] fresh_cracker empty_fs))
     = [''a'', ''b'', ''c'']
   \<and> dictionary_attack corrupt_archive (Some [''a'', ''b'', ''c'']) fresh_state
     = Inr (None, \<lparr>attempts = 3, tried = [''a'', ''b'', ''c'']\<rparr>)"
  by (simp add: try_passwords_def dictionary_attack_def effective_wordlist_def
      corrupt_archive_def fresh_state_def Let_def)

text \<open>
  C5 (amended). When the file cannot be opened as an archive, \<open>try_passwords\<close> tries no
  candidate and returns the failure result, the same result as for an exhausted
  candidate list; \<open>dictionary_attack\<close> returns nothing found after zero attempts when
  opening raises \<open>BadZipFile\<close>. A \<open>BadZipFile\<close> raised by a candidate's extraction is
  handled as a wrong password: the loop goes on to the next candidate, through the
  whole list.
\<close>

theorem unopenable_short_circuits:
  "(z_open z \<noteq> OpenOk \<longrightarrow>
      try_passwords z candidates c fs =
        (\<lparr>found_password = None, found_dir = None, attempt = 0, tried_candidates = []\<rparr>, c, fs))
   \<and> (z_exists z \<and> z_open z = OpenBadZipFile \<longrightarrow>
      dictionary_attack z wordlist s = Inr (None, \<lparr>attempts = 0, tried = []\<rparr>))
   \<and> (z_open z = OpenOk \<and> list_all (\<lambda>p. fst (z_extractall z p) = BadZipFile) candidates \<longrightarrow>
      fst (try_passwords z candidates c fs) =
        \<lparr>found_password = None, found_dir = None, attempt = length candidates,
         tried_candidates = candidates\<rparr>)"
proof (intro conjI impI)
  assume "z_open z \<noteq> OpenOk"
  then show "try_passwords z candidates c fs =
        (\<lparr>found_password = None, found_dir = None, attempt = 0, tried_candidates = []\<rparr>, c, fs)"
    by (simp add: try_passwords_def split: open_outcome.split)
next
  assume "z_exists z \<and> z_open z = OpenBadZipFile"
  then show "dictionary_attack z wordlist s = Inr (None, \<lparr>attempts = 0, tried = []\<rparr>)"
    by (simp add: dictionary_attack_def)
next
  assume a: "z_open z = OpenOk \<and> list_all (\<lambda>p. fst (z_extractall z p) = BadZipFile) candidates"
  then have "list_all (wrong_password z) candidates"
    by (simp add: wrong_password_def list_all_iff)
  with a show "fst (try_passwords z candidates c fs) =
        \<lparr>found_password = None, found_dir = None, attempt = length candidates,
         tried_candidates = candidates\<rparr>"
    by (simp add: try_passwords_def try_loop_all_wrong)
qed

theorem unopenable_short_circuits_witness:
  "try_passwords not_an_archive [''a'', ''b''] fresh_cracker empty_fs =
     (\<lparr>found_password = None, found_dir = None, attempt = 0, tried_candidates = []\<rparr>,
      fresh_cracker, empty_fs)
   \<and> dictionary_attack not_an_archive (Some [''a'', ''b'']) fresh_state =
       Inr (None, \<lparr>attempts = 0, tried = []\<rparr>)
   \<and> fst (try_passwords corrupt_archive [''a'', ''b''] fresh_cracker empty_fs) =
       \<lparr>found_password = None, found_dir = None, attempt = 2, tried_candidates = [''a'', ''b'']\<rparr>"
  using unopenable_short_circuits [of not_an_archive "[''a'', ''b'']" fresh_cracker empty_fs
          "Some [''a'', ''b'']" fresh_state]
        unopenable_short_circuits [of corrupt_archive "[''a'', ''b'']" fresh_cracker empty_fs
          "Some [''a'', ''b'']" fresh_state]
  by (simp add: not_an_archive_def corrupt_archive_def)

section \<open>Candidate generation\<close>

lemma combo_loop_locked:
  "combo_loop locked ps s = Inr (None, s\<lparr>attempts := attempts s + length ps, tried := tried s @ ps\<rparr>)"
  by (induction ps arbitrary: s) (simp_all add: locked_def)

lemma length_loop_locked:
  "length_loop locked ns s =
     Inr (None, s\<lparr>attempts := attempts s + length (concat (map (product_repeat digits) ns)),
                  tried := tried s @ concat (map (product_repeat digits) ns)\<rparr>)"
  by (induction ns arbitrary: s) (simp_all add: combo_loop_locked)

lemma numeric_trials_eq:
  "numeric_trials m = concat (map (product_repeat digits) (length_range m))"
proof -
  have "z_exists locked" and "z_open locked = OpenOk" by (simp_all add: locked_def)
  then show ?thesis
    by (simp add: numeric_trials_def brute_force_numeric_def length_loop_locked)
qed

lemma set_product_repeat:
  "set (product_repeat xs n) = {s. length s = n \<and> set s \<subseteq> set xs}"
proof (induction n)
  case 0 show ?case by auto
next
  case (Suc n)
  show ?case
  proof (rule set_eqI)
    fix s show "s \<in> set (product_repeat xs (Suc n)) \<longleftrightarrow> s \<in> {s. length s = Suc n \<and> set s \<subseteq> set xs}"
      using Suc by (cases s) auto
  qed
qed

lemma sorted_wrt_concat:
  "sorted_wrt R (concat xss) \<longleftrightarrow>
     (\<forall>xs\<in>set xss. sorted_wrt R xs) \<and>
     sorted_wrt (\<lambda>xs ys. \<forall>x\<in>set xs. \<forall>y\<in>set ys. R x y) xss"
  by (induction xss) (auto simp: sorted_wrt_append)

lemma sorted_product_repeat:
  fixes xs :: "'a::linorder list"
  assumes "sorted_wrt (<) xs"
  shows "sorted_wrt (<) (product_repeat xs n)"
proof (induction n)
  case 0 show ?case by simp
next
  case (Suc n)
  have inner: "sorted_wrt (<) (map ((#) x) (product_repeat xs n))" for x
    using Suc by (simp add: sorted_wrt_map)
  have outer: "sorted_wrt (\<lambda>x y. \<forall>a\<in>set (map ((#) x) (product_repeat xs n)).
                  \<forall>b\<in>set (map ((#) y) (product_repeat xs n)). a < b) xs"
    by (rule sorted_wrt_mono_rel [OF _ assms]) auto
  show ?case
    unfolding product_repeat.simps sorted_wrt_concat
  proof (intro conjI ballI)
    fix ys assume "ys \<in> set (map (\<lambda>x. map ((#) x) (product_repeat xs n)) xs)"
    then obtain x where "ys = map ((#) x) (product_repeat xs n)" by auto
    then show "sorted_wrt (<) ys" using inner by simp
  next
    show "sorted_wrt (\<lambda>xs ys. \<forall>x\<in>set xs. \<forall>y\<in>set ys. x < y)
            (map (\<lambda>x. map ((#) x) (product_repeat xs n)) xs)"
      unfolding sorted_wrt_map by (rule outer)
  qed
qed

lemma sorted_digits: "sorted_wrt (<) digits"
  by (simp add: digits_def)

lemma sorted_length_range: "sorted_wrt (<) (length_range m)"
proof -
  have "sorted_wrt (<) [1..m]" by (simp add: sorted_wrt_iff_nth_less)
  then show ?thesis
    unfolding length_range_def sorted_wrt_map
    by (rule sorted_wrt_mono_rel [rotated]) auto
qed

lemma set_length_range: "set (length_range m) = {n. 1 \<le> n \<and> int n \<le> m}"
proof (rule set_eqI)
  fix n :: nat
  have "n \<in> nat ` {1..m}" if "1 \<le> n" "int n \<le> m"
    using that by (intro image_eqI [of _ _ "int n"]) simp_all
  then show "n \<in> set (length_range m) \<longleftrightarrow> n \<in> {n. 1 \<le> n \<and> int n \<le> m}"
    unfolding length_range_def by auto
qed

lemma sorted_numeric_trials: "sorted_wrt shortlex (numeric_trials m)"
proof -
  have inner: "sorted_wrt shortlex (product_repeat digits n)" for n
    by (rule sorted_wrt_mono_rel [OF _ sorted_product_repeat [OF sorted_digits]])
       (simp add: shortlex_def set_product_repeat)
  have outer: "sorted_wrt (\<lambda>j k. \<forall>a\<in>set (product_repeat digits j).
                  \<forall>b\<in>set (product_repeat digits k). shortlex a b) (length_range m)"
    by (rule sorted_wrt_mono_rel [OF _ sorted_length_range])
       (simp add: shortlex_def set_product_repeat)
  show ?thesis
    by (simp add: numeric_trials_eq sorted_wrt_concat sorted_wrt_map inner outer)
qed

lemma set_numeric_trials:
  "set (numeric_trials m) = {s. 1 \<le> length s \<and> int (length s) \<le> m \<and> set s \<subseteq> set digits}"
  by (auto simp: numeric_trials_eq set_product_repeat set_length_range)

lemma shortlex_irrefl: "\<not> shortlex a a"
  by (simp add: shortlex_def)

lemma distinct_numeric_trials: "distinct (numeric_trials m)"
proof -
  have "sorted_wrt (\<lambda>a b. a \<noteq> b) (numeric_trials m)"
    by (rule sorted_wrt_mono_rel [OF _ sorted_numeric_trials]) (auto simp: shortlex_irrefl)
  then show ?thesis by (simp add: distinct_conv_nth sorted_wrt_iff_nth_less) (metis nat_neq_iff)
qed

lemma product_repeat_1: "product_repeat xs (Suc 0) = map (\<lambda>a. [a]) xs"
  by (simp add: concat_map_singleton)

lemma product_repeat_2:
  "product_repeat xs (Suc (Suc 0)) = concat (map (\<lambda>a. map (\<lambda>b. [a, b]) xs) xs)"
  unfolding product_repeat.simps(2) [of xs "Suc 0"] product_repeat_1
  by (simp add: o_def)

lemma length_range_2: "length_range 2 = [Suc 0, Suc (Suc 0)]"
  by (simp add: length_range_def upto.simps numeral_2_eq_2)

lemma numeric_trials_upto_2:
  "numeric_trials 2 =
     map (\<lambda>a. [a]) digits @ concat (map (\<lambda>a. map (\<lambda>b. [a, b]) digits) digits)"
  unfolding numeric_trials_eq length_range_2
  by (simp only: list.map concat.simps product_repeat_1 product_repeat_2 append_Nil2)

lemma length_numeric_trials_2: "length (numeric_trials 2) = 110"
  by (simp add: numeric_trials_upto_2 digits_def)

text \<open>
  C2. The trial sequence of the numeric brute force consists of exactly the strings of one
  to \<open>max_length\<close> decimal digits, each once, shorter strings first and the strings of
  one length in ascending lexicographic order. For \<open>max_length = 2\<close> it is \<open>0\<close> to \<open>9\<close>
  followed by \<open>00\<close> to \<open>99\<close>, 110 candidates.
\<close>

theorem numeric_brute_force_enumeration:
  "set (numeric_trials max_length) =
     {s. 1 \<le> length s \<and> int (length s) \<le> max_length \<and> set s \<subseteq> set digits}
   \<and> distinct (numeric_trials max_length)
   \<and> sorted_wrt shortlex (numeric_trials max_length)
   \<and> numeric_trials 2 =
       map (\<lambda>a. [a]) digits @ concat (map (\<lambda>a. map (\<lambda>b. [a, b]) digits) digits)
   \<and> length (numeric_trials 2) = 110"
  using set_numeric_trials distinct_numeric_trials sorted_numeric_trials
    numeric_trials_upto_2 length_numeric_trials_2
  by (intro conjI)






















text \<open>
  C9 (as the claim states it, refuted). At layer 2 the candidates chosen with a hint are
  the candidates chosen without one, and so is the outcome of the unlock attempt.
\<close>

theorem hint_ignored_counterexample:
  "layer_candidates 2 ''HINT FOR LAYER 2: firstname+year'' = layer_candidates 2 ''''
   \<and> snd (intelligent_crack_layer (\<lambda>m. None) (archive_with_password ''albert1921'') 2
            ''HINT FOR LAYER 2: firstname+year'' fresh_cracker empty_fs)
     = snd (intelligent_crack_layer (\<lambda>m. None) (archive_with_password ''albert1921'') 2
            '''' fresh_cracker empty_fs)"
  by (simp add: layer_candidates_def intelligent_crack_layer_def)

text \<open>
  C9 (amended). The candidates of a layer are chosen by the layer number alone: the simple
  list at layer 1, the knowledge-derived list at layer 2, the combinatorial list at every
  other layer. The hint text does not enter the choice or the unlock attempt; it only
  decides what the two scanners print.
\<close>

theorem candidates_by_layer_only:
  "layer_candidates layer_num hint_text =
     (if layer_num = 1 then generate_simple_passwords
      else if layer_num = 2 then generate_knowledge_passwords
      else generate_complex_passwords)
   \<and> layer_candidates layer_num hint_text = layer_candidates layer_num other_hint
   \<and> snd (intelligent_crack_layer dec z layer_num hint_text c fs)
       = snd (intelligent_crack_layer dec z layer_num other_hint c fs)
   \<and> fst (intelligent_crack_layer dec z layer_num hint_text c fs) = hint_output dec hint_text"
  by (simp add: layer_candidates_def intelligent_crack_layer_def)

section \<open>The extraction directory\<close>

lemma names_write_entry: "e_name ` set (write_entry e d) = insert (e_name e) (e_name ` set d)"
  by (induction d) auto

lemma names_write_entries:
  "e_name ` set (write_entries d ws) = e_name ` set d \<union> e_name ` set ws"
  unfolding write_entries_def
  by (induction ws arbitrary: d) (simp_all add: names_write_entry)

lemma names_attempt_fs:
  "names_in (attempt_fs z d fs p) d = names_in fs d \<union> written_names z p"
  by (simp add: names_in_def attempt_fs_def dir_entries_def mkdir_def written_names_def
      names_write_entries split: option.split)

lemma names_foldl_attempt_fs:
  "names_in (foldl (attempt_fs z d) fs ps) d = names_in fs d \<union> (\<Union>p\<in>set ps. written_names z p)"
  by (induction ps arbitrary: fs) (auto simp: names_attempt_fs)

lemma attempt_fs_exists: "attempt_fs z d fs p d \<noteq> None"
  by (simp add: attempt_fs_def)

lemma foldl_attempt_fs_exists: "ps \<noteq> [] \<Longrightarrow> foldl (attempt_fs z d) fs ps d \<noteq> None"
  by (induction ps arbitrary: fs rule: rev_induct) (simp_all add: attempt_fs_exists)

lemma attempt_fs_other: "d' \<noteq> d \<Longrightarrow> attempt_fs z d fs p d' = fs d'"
  by (simp add: attempt_fs_def mkdir_def split: option.split)

lemma foldl_attempt_fs_other: "d' \<noteq> d \<Longrightarrow> foldl (attempt_fs z d) fs ps d' = fs d'"
  by (induction ps arbitrary: fs) (simp_all add: attempt_fs_other)

lemma try_loop_effects:
  "\<exists>k\<le>length ps.
     tried_candidates (fst (try_loop z ps n tr c fs)) = tr @ take k ps \<and>
     snd (snd (try_loop z ps n tr c fs)) = foldl (attempt_fs z (layer_count c)) fs (take k ps)"
proof (induction ps arbitrary: n tr fs)
  case Nil
  show ?case by simp
next
  case (Cons p ps)
  let ?fs2 = "attempt_fs z (layer_count c) fs p"
  show ?case
  proof (cases "wrong_password z p")
    case True
    then have step: "try_loop z (p # ps) n tr c fs = try_loop z ps (n + 1) (tr @ [p]) c ?fs2"
      unfolding wrong_password_def by (auto simp: Let_def attempt_fs_def)
    from Cons.IH [of "n + 1" "tr @ [p]" ?fs2] obtain k where
      k: "k \<le> length ps"
        "tried_candidates (fst (try_loop z ps (n + 1) (tr @ [p]) c ?fs2)) = (tr @ [p]) @ take k ps"
        "snd (snd (try_loop z ps (n + 1) (tr @ [p]) c ?fs2))
           = foldl (attempt_fs z (layer_count c)) ?fs2 (take k ps)"
      by blast
    show ?thesis
      unfolding step using k by (intro exI [of _ "Suc k"]) simp
  next
    case False
    then have "fst (z_extractall z p) = Extracted \<or> fst (z_extractall z p) = OtherError"
      unfolding wrong_password_def by (cases "fst (z_extractall z p)") simp_all
    then have "tried_candidates (fst (try_loop z (p # ps) n tr c fs)) = tr @ [p]
        \<and> snd (snd (try_loop z (p # ps) n tr c fs)) = ?fs2"
      by (auto simp: Let_def attempt_fs_def)
    then show ?thesis
      by (intro exI [of _ "Suc 0"]) simp
  qed
qed

text \<open>
  C10 (as the claim states it, refuted). After a failed attempt loop the extraction
  directory holds the file the rejected candidate's extraction wrote.
\<close>

theorem failed_attempt_leaves_files_counterexample:
  "found_password (fst (try_passwords leaky_archive [''bad''] fresh_cracker empty_fs)) = None
   \<and> snd (snd (try_passwords leaky_archive [''bad''] fresh_cracker empty_fs)) 0 = Some [readme]"
  by (simp add: try_passwords_def leaky_archive_def fresh_cracker_def empty_fs_def Let_def
      mkdir_def dir_entries_def write_entries_def)

text \<open>
  C10 (amended). For an archive that opens, the extraction directory after
  \<open>try_passwords\<close> holds the names it held before together with the names written by the
  extraction of every candidate tried, the rejected ones included: nothing is removed.
  The directory exists afterwards whenever there was a candidate, so on success the
  extracted entries are in a directory created if absent.
\<close>

theorem extraction_dir_keeps_every_write:
  assumes "z_open z = OpenOk"
  shows "names_in (snd (snd (try_passwords z candidates c fs))) (layer_count c) =
           names_in fs (layer_count c) \<union>
           (\<Union>p\<in>set (tried_candidates (fst (try_passwords z candidates c fs))). written_names z p)
       \<and> (candidates \<noteq> [] \<longrightarrow> snd (snd (try_passwords z candidates c fs)) (layer_count c) \<noteq> None)"
proof -
  from try_loop_effects [of candidates z 0 "[]" c fs] obtain k where
    k: "tried_candidates (fst (try_loop z candidates 0 [] c fs)) = take k candidates"
       "snd (snd (try_loop z candidates 0 [] c fs))
          = foldl (attempt_fs z (layer_count c)) fs (take k candidates)"
    by auto
  have nonempty: "take k candidates \<noteq> []" if "candidates \<noteq> []"
  proof (cases candidates)
    case Nil with that show ?thesis by simp
  next
    case (Cons p ps)
    have "tried_candidates (fst (try_loop z (p # ps) 0 [] c fs)) \<noteq> []"
    proof (cases "fst (z_extractall z p)")
      case Extracted then show ?thesis by (simp add: Let_def)
    next
      case OtherError then show ?thesis by (simp add: Let_def)
    next
      case RuntimeError
      then have "wrong_password z p" by (simp add: wrong_password_def)
      then show ?thesis
        using try_loop_effects [of ps z 1 "[p]" c "attempt_fs z (layer_count c) fs p"] RuntimeError
        by (auto simp: Let_def attempt_fs_def)
    next
      case BadZipFile
      then show ?thesis
        using try_loop_effects [of ps z 1 "[p]" c "attempt_fs z (layer_count c) fs p"]
        by (auto simp: Let_def attempt_fs_def)
    qed
    with k Cons show ?thesis by simp
  qed
  show ?thesis
    using assms k nonempty
    by (auto simp: try_passwords_def names_foldl_attempt_fs foldl_attempt_fs_exists
        simp del: try_loop.simps)
qed

theorem extraction_dir_keeps_every_write_witness:
  "names_in (snd (snd (try_passwords leaky_archive [''bad'', ''good''] fresh_cracker empty_fs))) 0
     = {''readme.txt'', ''secret.txt''}
   \<and> snd (snd (try_passwords leaky_archive [''bad'', ''good''] fresh_cracker empty_fs)) 0 \<noteq> None"
proof -
  have o: "z_open leaky_archive = OpenOk" by (simp add: leaky_archive_def)
  have t: "tried_candidates (fst (try_passwords leaky_archive [''bad'', ''good''] fresh_cracker empty_fs))
            = [''bad'', ''good'']"
    by (simp add: try_passwords_def leaky_archive_def Let_def)
  show ?thesis
    using extraction_dir_keeps_every_write [OF o, of "[''bad'', ''good'']" fresh_cracker empty_fs]
    unfolding t
    by (auto simp: names_in_def dir_entries_def empty_fs_def fresh_cracker_def written_names_def
        leaky_archive_def readme_def secret_def)
qed

section \<open>Hint sections\<close>










section \<open>Encoded segments\<close>

lemma eq_not_b64: "is_eq c \<Longrightarrow> \<not> is_b64 c"
  by (auto simp: is_eq_def is_b64_def is_upper_def is_lower_def is_digit_def)

lemma takeWhile_run_pad:
  assumes "list_all is_b64 run" and "list_all is_eq pad"
  shows "takeWhile is_b64 (run @ pad) = run" and "dropWhile is_b64 (run @ pad) = pad"
proof -
  have "pad = [] \<or> \<not> is_b64 (hd pad)"
    using assms(2) by (cases pad) (auto simp: eq_not_b64)
  then have "takeWhile is_b64 pad = []" and "dropWhile is_b64 pad = pad"
    by (cases pad; simp)+
  then show "takeWhile is_b64 (run @ pad) = run" and "dropWhile is_b64 (run @ pad) = pad"
    using assms(1) by (simp_all add: list_all_iff takeWhile_append2 dropWhile_append2)
qed

lemma match_base64_token: "match_base64 inp = Some m \<Longrightarrow> b64_token m"
proof -
  assume a: "match_base64 inp = Some m"
  let ?run = "takeWhile is_b64 inp"
  let ?pad = "take 2 (takeWhile is_eq (dropWhile is_b64 inp))"
  from a have m: "m = ?run @ ?pad" and len: "20 \<le> length ?run"
    by (auto simp: match_base64_def Let_def split: if_splits)
  have run: "list_all is_b64 ?run"
    by (simp add: list_all_iff) (meson set_takeWhileD)
  have pad: "list_all is_eq ?pad"
    by (simp add: list_all_iff) (meson in_set_takeD set_takeWhileD)
  show ?thesis
    unfolding b64_token_def m takeWhile_run_pad [OF run pad]
    using len pad by simp
qed

lemma findall_base64_tokens: "list_all b64_token (findall_base64 inp)"
proof (induction inp rule: findall_base64.induct)
  case (1 inp)
  show ?case
  proof (cases "match_base64 inp")
    case None
    with 1 show ?thesis
      by (subst findall_base64.simps) (auto split: list.split)
  next
    case (Some m)
    with 1 show ?thesis
      by (subst findall_base64.simps) (simp add: match_base64_token)
  qed
qed

lemma decode_loop_concat: "decode_loop dec ms = concat (map (decoded_lines dec) ms)"
  by (induction ms) (simp_all add: decoded_lines_def split: option.split)

lemma match_base64_at_run:
  assumes "list_all is_b64 run" and "20 \<le> length run" and "post = [] \<or> \<not> is_b64 (hd post)"
  shows "match_base64 (run @ post) = Some (run @ take 2 (takeWhile is_eq post))"
proof -
  from assms(3) have "takeWhile is_b64 post = []" and "dropWhile is_b64 post = post"
    by (cases post; simp)+
  then have "takeWhile is_b64 (run @ post) = run" and "dropWhile is_b64 (run @ post) = post"
    using assms(1) by (simp_all add: list_all_iff takeWhile_append2 dropWhile_append2)
  then show ?thesis using assms(2) by (simp add: match_base64_def)
qed

lemma match_base64_within_prefix:
  assumes "match_base64 (pre @ run @ post) = Some m"
    and "pre \<noteq> []" and "\<not> is_b64 (last pre)"
    and "run \<noteq> []" and "list_all is_b64 run"
  shows "\<exists>pre'. pre = m @ pre' \<and> (pre' = [] \<or> \<not> is_b64 (last pre'))"
proof -
  let ?inp = "pre @ run @ post"
  have last_in: "last pre \<in> set pre" using assms(2) by simp
  have tw: "takeWhile is_b64 ?inp = takeWhile is_b64 pre"
    using last_in assms(3) by (simp add: takeWhile_append1 [of "last pre"] ) 
  have dw: "dropWhile is_b64 ?inp = dropWhile is_b64 pre @ run @ post"
    using last_in assms(3) by (simp add: dropWhile_append1 [of "last pre"])
  let ?d = "dropWhile is_b64 pre"
  have hd_run: "\<not> is_eq (hd run)"
    using assms(4,5) eq_not_b64 by (cases run) auto
  have tweq: "takeWhile is_eq (?d @ run @ post) = takeWhile is_eq ?d"
  proof (cases "\<forall>x\<in>set ?d. is_eq x")
    case True
    then have a: "takeWhile is_eq ?d = ?d" by (simp add: takeWhile_eq_all_conv)
    have b: "takeWhile is_eq (run @ post) = []"
      using hd_run assms(4) by (cases run) simp_all
    have c: "takeWhile is_eq (?d @ run @ post) = ?d @ takeWhile is_eq (run @ post)"
      using True by (simp add: takeWhile_append2)
    show ?thesis unfolding c b a by simp
  next
    case False
    then obtain x where "x \<in> set ?d" "\<not> is_eq x" by blast
    then show ?thesis by (simp add: takeWhile_append1)
  qed
  from assms(1) have m: "m = takeWhile is_b64 pre @ take 2 (takeWhile is_eq ?d)"
    by (auto simp: match_base64_def Let_def tw dw tweq split: if_splits)
  have "?d = takeWhile is_eq ?d @ dropWhile is_eq ?d" by simp
  then have "?d = take 2 (takeWhile is_eq ?d) @ drop 2 (takeWhile is_eq ?d) @ dropWhile is_eq ?d"
    by (metis append.assoc append_take_drop_id)
  then have pre: "pre = m @ drop 2 (takeWhile is_eq ?d) @ dropWhile is_eq ?d"
    unfolding m by (metis append.assoc takeWhile_dropWhile_id)
  let ?pre' = "drop 2 (takeWhile is_eq ?d) @ dropWhile is_eq ?d"
  have "?pre' = [] \<or> \<not> is_b64 (last ?pre')"
  proof (cases "?pre' = []")
    case True then show ?thesis by simp
  next
    case False
    then have "last pre = last ?pre'" using pre by (metis last_appendR)
    with assms(3) show ?thesis by simp
  qed
  with pre show ?thesis by blast
qed

lemma findall_base64_complete:
  assumes "list_all is_b64 run" and "20 \<le> length run"
    and "pre = [] \<or> \<not> is_b64 (last pre)" and "post = [] \<or> \<not> is_b64 (hd post)"
  shows "run @ take 2 (takeWhile is_eq post) \<in> set (findall_base64 (pre @ run @ post))"
  using assms(3)
proof (induction pre rule: length_induct)
  case (1 pre)
  have run_ne: "run \<noteq> []" using assms(2) by auto
  show ?case
  proof (cases "pre = []")
    case True
    then show ?thesis
      by (subst findall_base64.simps)
         (simp add: match_base64_at_run [OF assms(1,2,4)])
  next
    case False
    with "1.prems" have nb: "\<not> is_b64 (last pre)" by simp
    show ?thesis
    proof (cases "match_base64 (pre @ run @ post)")
      case None
      from False obtain c cs where pre: "pre = c # cs" by (cases pre) auto
      have cs: "cs = [] \<or> \<not> is_b64 (last cs)" using nb pre by (cases cs) auto
      have "run @ take 2 (takeWhile is_eq post) \<in> set (findall_base64 (cs @ run @ post))"
        using "1.IH" [rule_format, of cs] pre cs by auto
      then show ?thesis
        using None pre by (subst findall_base64.simps) simp
    next
      case (Some m)
      from match_base64_within_prefix [OF Some False nb run_ne assms(1)]
      obtain pre' where pre': "pre = m @ pre'" "pre' = [] \<or> \<not> is_b64 (last pre')" by blast
      from Some have "m \<noteq> []"
        by (auto simp: match_base64_def Let_def split: if_splits)
      then have "length pre' < length pre" using pre' by simp
      then have "run @ take 2 (takeWhile is_eq post) \<in> set (findall_base64 (pre' @ run @ post))"
        using "1.IH" [rule_format, of pre'] pre' by auto
      then show ?thesis
        using Some pre' by (subst findall_base64.simps) simp
    qed
  qed
qed

text \<open>
  C6. Every token the scan finds is a run of at least twenty characters of the base64
  alphabet followed by at most two \<open>=\<close>; every such run that is delimited in the text
  is found, with the \<open>=\<close> that follow it. The output is the header followed, token by
  token in text order, by the token and its decoded string when the token decodes and by
  nothing when it does not. The scan has no raising exit.
\<close>

theorem encoded_segments_decoded_or_dropped:
  "list_all b64_token (findall_base64 inp)
   \<and> decode_base64_hints dec inp =
       DecodingHeader # concat (map (decoded_lines dec) (findall_base64 inp))
   \<and> (list_all is_b64 run \<and> 20 \<le> length run
        \<and> (pre = [] \<or> \<not> is_b64 (last pre)) \<and> (post = [] \<or> \<not> is_b64 (hd post)) \<longrightarrow>
        run @ take 2 (takeWhile is_eq post) \<in> set (findall_base64 (pre @ run @ post)))"
  using findall_base64_tokens [of inp] decode_loop_concat [of dec "findall_base64 inp"]
    findall_base64_complete [of run pre post]
  by (simp add: decode_base64_hints_def)

theorem encoded_segments_decoded_or_dropped_witness:
  "list_all is_b64 ''VGhlIGZpbmFsIGxheWVyIGF3YWl0cyE''
   \<and> ''VGhlIGZpbmFsIGxheWVyIGF3YWl0cyE=''
       \<in> set (findall_base64
                ''Base64 secret: VGhlIGZpbmFsIGxheWVyIGF3YWl0cyE= and abcdefghijklmnopqrstuvwxyz'')
   \<and> findall_base64
        ''Base64 secret: VGhlIGZpbmFsIGxheWVyIGF3YWl0cyE= and abcdefghijklmnopqrstuvwxyz''
       = [''VGhlIGZpbmFsIGxheWVyIGF3YWl0cyE='', ''abcdefghijklmnopqrstuvwxyz'']
   \<and> decode_base64_hints layer2_dec
        ''Base64 secret: VGhlIGZpbmFsIGxheWVyIGF3YWl0cyE= and abcdefghijklmnopqrstuvwxyz''
       = [DecodingHeader, FoundEncoded ''VGhlIGZpbmFsIGxheWVyIGF3YWl0cyE='',
          Decoded ''The final layer awaits!'']
   \<and> findall_base64 ''too short: VGhlIGZpbmFs'' = []"
proof -
  have r: "list_all is_b64 ''VGhlIGZpbmFsIGxheWVyIGF3YWl0cyE''" by code_simp
  have n: "20 \<le> length ''VGhlIGZpbmFsIGxheWVyIGF3YWl0cyE''" by simp
  have b: "''Base64 secret: '' = [] \<or> \<not> is_b64 (last ''Base64 secret: '')" by code_simp
  have a: "''= and abcdefghijklmnopqrstuvwxyz'' = []
           \<or> \<not> is_b64 (hd ''= and abcdefghijklmnopqrstuvwxyz'')" by code_simp
  have t: "take 2 (takeWhile is_eq ''= and abcdefghijklmnopqrstuvwxyz'') = ''=''" by code_simp
  from encoded_segments_decoded_or_dropped
    [of _ _ "''VGhlIGZpbmFsIGxheWVyIGF3YWl0cyE''" "''Base64 secret: ''"
        "''= and abcdefghijklmnopqrstuvwxyz''"] r n b a
  have "''VGhlIGZpbmFsIGxheWVyIGF3YWl0cyE'' @ take 2 (takeWhile is_eq ''= and abcdefghijklmnopqrstuvwxyz'')
      \<in> set (findall_base64 (''Base64 secret: '' @ ''VGhlIGZpbmFsIGxheWVyIGF3YWl0cyE''
                 @ ''= and abcdefghijklmnopqrstuvwxyz''))"
    by blast
  then have m: "''VGhlIGZpbmFsIGxheWVyIGF3YWl0cyE=''
       \<in> set (findall_base64
                ''Base64 secret: VGhlIGZpbmFsIGxheWVyIGF3YWl0cyE= and abcdefghijklmnopqrstuvwxyz'')"
    unfolding t by simp
  have f: "findall_base64
        ''Base64 secret: VGhlIGZpbmFsIGxheWVyIGF3YWl0cyE= and abcdefghijklmnopqrstuvwxyz''
       = [''VGhlIGZpbmFsIGxheWVyIGF3YWl0cyE='', ''abcdefghijklmnopqrstuvwxyz'']"
    by code_simp
  have d: "decode_base64_hints layer2_dec
        ''Base64 secret: VGhlIGZpbmFsIGxheWVyIGF3YWl0cyE= and abcdefghijklmnopqrstuvwxyz''
       = [DecodingHeader, FoundEncoded ''VGhlIGZpbmFsIGxheWVyIGF3YWl0cyE='',
          Decoded ''The final layer awaits!'']"
    by code_simp
  have s: "findall_base64 ''too short: VGhlIGZpbmFs'' = []" by code_simp
  from r m f d s show ?thesis by simp
qed

section \<open>Coordinates\<close>

lemma not_digit_simps [simp]:
  "\<not> is_digit (CHR ''.'')" "\<not> is_digit (CHR ''-'')" "\<not> is_digit (CHR '','')"
  by (simp_all add: is_digit_def)

lemma is_digit_code: "is_digit c \<longleftrightarrow> 48 \<le> (of_char c :: nat) \<and> (of_char c :: nat) \<le> 57"
  by (simp add: is_digit_def less_eq_char_def)


lemma digit_not_minus: "is_digit c \<Longrightarrow> c \<noteq> CHR ''-''"
  by (auto simp: is_digit_code)


lemma minus_not_space [simp]: "\<not> is_space (CHR ''-'')"
  by (simp add: is_space_def Let_def)














lemma findall_coords_Nil: "findall_coords [] = []"
  by (subst findall_coords.simps) (simp add: match_pair_def match_number_def)




end
